theory Spec2Isabelle
  imports Complex_Main "HOL-Library.Word"
begin

section \<open>The digitron micro-benchmark: expression evaluator and node pool\<close>

text \<open>
  A shallow embedding of \<^verbatim>\<open>digitron.c\<close>: the environment, the expression nodes with
  their \<^verbatim>\<open>execute_*\<close> functions, and the freelist allocator. A C function that can run
  into behaviour the C standard leaves undefined returns a sum: \<open>Inl\<close> names the undefined
  behaviour reached, \<open>Inr\<close> carries the value returned together with the updated state.
\<close>

datatype undefined_behaviour =
    Float_To_Int_Out_Of_Range  \<comment> \<open>\<^verbatim>\<open>(int64_t) d\<close> where the integral part of \<open>d\<close> does not fit\<close>
  | Rem_By_Zero                \<comment> \<open>\<^verbatim>\<open>a % 0\<close>\<close>
  | Rem_Overflow               \<comment> \<open>\<^verbatim>\<open>INT64_MIN % -1\<close>: the quotient is not representable\<close>
  | Index_Out_Of_Bounds        \<comment> \<open>an array subscript outside the array\<close>
  | Invalid_Pointer            \<comment> \<open>dereferencing \<^verbatim>\<open>NULL\<close> or a pointer outside the pool\<close>

type_synonym 'a result = "undefined_behaviour + 'a"

subsection \<open>The type \<^verbatim>\<open>double\<close>\<close>

text \<open>
  IEEE 754 binary64 with the default rounding (to nearest, ties to even), which is what
  \<^verbatim>\<open>double\<close> and \<^verbatim>\<open>sqrt\<close> are on the benchmark's targets. \<open>Finite s m e\<close> is the number
  \<open>(-1)^s * m * 2^e\<close>, kept in the one form in which \<open>0 \<le> m < 2^53\<close>, \<open>-1074 \<le> e \<le> 971\<close> and
  \<open>2^52 \<le> m\<close> unless \<open>e = -1074\<close>; the two zeros are \<open>Finite s 0 (-1074)\<close>. The payload of a
  not-a-number is not modelled.
\<close>

datatype double = Finite bool int int | Infinity bool | NaN

definition pow2 :: "int \<Rightarrow> rat" where
  "pow2 e = (if 0 \<le> e then 2 ^ nat e else 1 / 2 ^ nat (- e))"

function bit_length :: "int \<Rightarrow> int" where
  "bit_length n = (if n \<le> 0 then 0 else 1 + bit_length (n div 2))"
  by pat_completeness auto
termination
  by (relation "measure nat") auto

declare bit_length.simps [simp del]

text \<open>\<open>floor_log2 q\<close> is the \<open>k\<close> with \<open>2^k \<le> q < 2^(k+1)\<close>, for \<open>q > 0\<close>.\<close>

definition floor_log2 :: "rat \<Rightarrow> int" where
  "floor_log2 q =
     (let (p, d) = quotient_of q;
          k = bit_length p - bit_length d
      in if pow2 k \<le> q then k else k - 1)"

definition round_half_even :: "rat \<Rightarrow> int" where
  "round_half_even q =
     (let f = \<lfloor>q\<rfloor>; r = q - of_int f
      in if r < 1 / 2 then f
         else if 1 / 2 < r then f + 1
         else if even f then f else f + 1)"

text \<open>Rounding the magnitude \<open>q \<ge> 0\<close> with sign \<open>s\<close> to the nearest \<^verbatim>\<open>double\<close>.\<close>

definition round_to_double :: "bool \<Rightarrow> rat \<Rightarrow> double" where
  "round_to_double s q =
     (if q = 0 then Finite s 0 (- 1074)
      else
        let e = max (floor_log2 q - 52) (- 1074);
            m = round_half_even (q / pow2 e)
        in if m = 2 ^ 53
           then (if 971 < e + 1 then Infinity s else Finite s (2 ^ 52) (e + 1))
           else (if 971 < e then Infinity s else Finite s m e))"

definition magnitude :: "int \<Rightarrow> int \<Rightarrow> rat" where
  "magnitude m e = of_int m * pow2 e"

definition signed_value :: "bool \<Rightarrow> int \<Rightarrow> int \<Rightarrow> rat" where
  "signed_value s m e = (if s then - magnitude m e else magnitude m e)"

definition round_signed :: "rat \<Rightarrow> double" where
  "round_signed q = round_to_double (q < 0) \<bar>q\<bar>"

fun double_neg :: "double \<Rightarrow> double" where
  "double_neg (Finite s m e) = Finite (\<not> s) m e"
| "double_neg (Infinity s) = Infinity (\<not> s)"
| "double_neg NaN = NaN"

text \<open>\<^verbatim>\<open>l + r\<close>: a sum that is exactly zero is \<open>-0\<close> when both operands are negative
  (then both are \<open>-0\<close>) and \<open>+0\<close> otherwise.\<close>

fun double_add :: "double \<Rightarrow> double \<Rightarrow> double" where
  "double_add NaN _ = NaN"
| "double_add _ NaN = NaN"
| "double_add (Infinity s) (Infinity t) = (if s = t then Infinity s else NaN)"
| "double_add (Infinity s) (Finite _ _ _) = Infinity s"
| "double_add (Finite _ _ _) (Infinity t) = Infinity t"
| "double_add (Finite s m e) (Finite t n f) =
     (let q = signed_value s m e + signed_value t n f
      in if q = 0 then Finite (s \<and> t) 0 (- 1074) else round_signed q)"

text \<open>\<^verbatim>\<open>l - r\<close> is \<^verbatim>\<open>l + (-r)\<close>.\<close>

definition double_sub :: "double \<Rightarrow> double \<Rightarrow> double" where
  "double_sub l r = double_add l (double_neg r)"

fun double_mul :: "double \<Rightarrow> double \<Rightarrow> double" where
  "double_mul NaN _ = NaN"
| "double_mul _ NaN = NaN"
| "double_mul (Infinity s) (Infinity t) = Infinity (s \<noteq> t)"
| "double_mul (Infinity s) (Finite t n f) = (if n = 0 then NaN else Infinity (s \<noteq> t))"
| "double_mul (Finite s m e) (Infinity t) = (if m = 0 then NaN else Infinity (s \<noteq> t))"
| "double_mul (Finite s m e) (Finite t n f) =
     round_to_double (s \<noteq> t) (magnitude m e * magnitude n f)"

fun double_div :: "double \<Rightarrow> double \<Rightarrow> double" where
  "double_div NaN _ = NaN"
| "double_div _ NaN = NaN"
| "double_div (Infinity s) (Infinity t) = NaN"
| "double_div (Infinity s) (Finite t n f) = Infinity (s \<noteq> t)"
| "double_div (Finite s m e) (Infinity t) = Finite (s \<noteq> t) 0 (- 1074)"
| "double_div (Finite s m e) (Finite t n f) =
     (if n = 0 then (if m = 0 then NaN else Infinity (s \<noteq> t))
      else round_to_double (s \<noteq> t) (magnitude m e / magnitude n f))"

text \<open>The integer square root, two bits of the argument at a time.\<close>

function isqrt :: "int \<Rightarrow> int" where
  "isqrt n =
     (if n \<le> 0 then 0
      else let r = 2 * isqrt (n div 4)
           in if (r + 1) * (r + 1) \<le> n then r + 1 else r)"
  by pat_completeness auto
termination
  by (relation "measure nat") auto

declare isqrt.simps [simp del]

text \<open>
  The correctly rounded square root of \<open>m * 2^e\<close>, \<open>m > 0\<close>: the significand is scaled by an
  even power of two to at least 110 bits, so that its integer root has at least 55; an
  inexact root is marked by adding one half, which lies strictly between the same two
  neighbouring doubles as the root itself.
\<close>

definition sqrt_magnitude :: "int \<Rightarrow> int \<Rightarrow> rat" where
  "sqrt_magnitude m e =
     (let t = 110 + e mod 2;
          n = m * 2 ^ nat t;
          r = isqrt n;
          sticky = (if r * r = n then 0 else 1 / 2)
      in (of_int r + sticky) * pow2 ((e - t) div 2))"

fun double_sqrt :: "double \<Rightarrow> double" where
  "double_sqrt NaN = NaN"
| "double_sqrt (Infinity s) = (if s then NaN else Infinity False)"
| "double_sqrt (Finite s m e) =
     (if m = 0 then Finite s 0 (- 1074)
      else if s then NaN
      else round_to_double False (sqrt_magnitude m e))"

subsection \<open>Conversions between \<^verbatim>\<open>double\<close> and \<^verbatim>\<open>int64_t\<close>\<close>

type_synonym int64 = "64 word"

text \<open>\<^verbatim>\<open>(int64_t) d\<close> discards the fraction (truncation toward zero); it is undefined when
  the integral part is not a value of \<^verbatim>\<open>int64_t\<close>, and for infinities and not-a-number.\<close>

fun double_to_int64 :: "double \<Rightarrow> int64 result" where
  "double_to_int64 (Finite s m e) =
     (let t = \<lfloor>magnitude m e\<rfloor>; v = (if s then - t else t)
      in if - (2 ^ 63) \<le> v \<and> v \<le> 2 ^ 63 - 1 then Inr (word_of_int v)
         else Inl Float_To_Int_Out_Of_Range)"
| "double_to_int64 (Infinity s) = Inl Float_To_Int_Out_Of_Range"
| "double_to_int64 NaN = Inl Float_To_Int_Out_Of_Range"

text \<open>\<^verbatim>\<open>(double) i\<close> rounds to the nearest \<^verbatim>\<open>double\<close>.\<close>

definition double_of_int :: "int \<Rightarrow> double" where
  "double_of_int k = round_to_double (k < 0) (of_int \<bar>k\<bar>)"

definition int64_to_double :: "int64 \<Rightarrow> double" where
  "int64_to_double i = double_of_int (sint i)"

text \<open>\<^verbatim>\<open>a / b\<close> and \<^verbatim>\<open>a % b\<close> on C integers: the quotient is truncated toward zero and
  \<^verbatim>\<open>a % b\<close> is \<^verbatim>\<open>a - (a / b) * b\<close>.\<close>

definition c_div :: "int \<Rightarrow> int \<Rightarrow> int" where
  "c_div a b = sgn a * sgn b * (\<bar>a\<bar> div \<bar>b\<bar>)"

definition c_rem :: "int \<Rightarrow> int \<Rightarrow> int" where
  "c_rem a b = a - c_div a b * b"

definition int64_rem :: "int64 \<Rightarrow> int64 \<Rightarrow> int64 result" where
  "int64_rem a b =
     (if sint b = 0 then Inl Rem_By_Zero
      else if sint a = - (2 ^ 63) \<and> sint b = - 1 then Inl Rem_Overflow
      else Inr (word_of_int (c_rem (sint a) (sint b))))"

subsection \<open>Environment\<close>

definition ENV_SIZE :: nat where
  "ENV_SIZE = 26"

definition REGISTER_COUNT :: nat where
  "REGISTER_COUNT = 10"

record environment =
  inputs :: "double list"
  registers :: "double list"

text \<open>The two arrays of an \<^verbatim>\<open>environment\<close> have their declared sizes.\<close>

definition environment_ok :: "environment \<Rightarrow> bool" where
  "environment_ok env \<longleftrightarrow>
     length (inputs env) = ENV_SIZE \<and> length (registers env) = REGISTER_COUNT"

text \<open>The constant \<^verbatim>\<open>0.0\<close>, and \<^verbatim>\<open>environment_init\<close>, whose two loops store it in every
  slot.\<close>

definition zero :: double where
  "zero = Finite False 0 (- 1074)"

definition environment_init :: "environment \<Rightarrow> environment" where
  "environment_init env =
     \<lparr> inputs = fold (\<lambda>i xs. xs[i := zero]) [0..<ENV_SIZE] (inputs env),
       registers = fold (\<lambda>i xs. xs[i := zero]) [0..<REGISTER_COUNT] (registers env) \<rparr>"

text \<open>
  \<^verbatim>\<open>env->inputs[name - 'a']\<close>: the subscript is computed in \<^verbatim>\<open>int\<close> and used without
  a check; outside the array the behaviour is undefined. \<open>of_char\<close> reads \<open>name\<close> as a code
  from 0 to 255; where \<^verbatim>\<open>char\<close> is signed the codes from 128 on are negative numbers
  instead, and the subscript is outside the array either way.
\<close>

definition execute_env_read :: "environment \<Rightarrow> char \<Rightarrow> double result" where
  "execute_env_read env name =
     (let i = (of_char name :: int) - of_char (CHR ''a'')
      in if 0 \<le> i \<and> nat i < length (inputs env) then Inr (inputs env ! nat i)
         else Inl Index_Out_Of_Bounds)"

text \<open>\<^verbatim>\<open>env->registers[index]\<close> with \<^verbatim>\<open>int8_t index\<close>, read and written unchecked.\<close>

definition execute_env_reg_load :: "environment \<Rightarrow> 8 word \<Rightarrow> double result" where
  "execute_env_reg_load env index =
     (let i = sint index
      in if 0 \<le> i \<and> nat i < length (registers env) then Inr (registers env ! nat i)
         else Inl Index_Out_Of_Bounds)"

definition execute_env_reg_store ::
    "environment \<Rightarrow> 8 word \<Rightarrow> double \<Rightarrow> (double \<times> environment) result" where
  "execute_env_reg_store env index v =
     (let i = sint index
      in if 0 \<le> i \<and> nat i < length (registers env)
         then Inr (v, env\<lparr>registers := (registers env)[nat i := v]\<rparr>)
         else Inl Index_Out_Of_Bounds)"

subsection \<open>Expression trees and their evaluation\<close>

text \<open>
  A node's \<^verbatim>\<open>type\<close> tag and the member of \<^verbatim>\<open>union expr_data\<close> in use become the
  constructor; the node's \<^verbatim>\<open>exec\<close> pointer is the \<^verbatim>\<open>execute_*\<close> function of its kind.
  A child pointer becomes the subtree it points to: a node that two parents share is
  evaluated once per parent, exactly as the tree with two copies of it.
\<close>

datatype expr =
    Constant double
  | Add expr expr
  | Sub expr expr
  | Mul expr expr
  | Div expr expr
  | Rem expr expr
  | Sqrt expr
  | Load "8 word"
  | Store "8 word" expr
  | Ident char

text \<open>The last two statements of \<^verbatim>\<open>execute_rem\<close>:
  \<^verbatim>\<open>int64_t irem = ((int64_t) l) % ((int64_t) r); return (double) irem;\<close>\<close>

definition rem_double :: "double \<Rightarrow> double \<Rightarrow> double result" where
  "rem_double l r =
     (case double_to_int64 l of
        Inl u \<Rightarrow> Inl u
      | Inr a \<Rightarrow>
          (case double_to_int64 r of
             Inl u \<Rightarrow> Inl u
           | Inr b \<Rightarrow>
               (case int64_rem a b of
                  Inl u \<Rightarrow> Inl u
                | Inr irem \<Rightarrow> Inr (int64_to_double irem))))"

fun execute :: "expr \<Rightarrow> environment \<Rightarrow> (double \<times> environment) result" where
  "execute (Constant v) env = Inr (v, env)"
| "execute (Add left right) env =
     (case execute left env of
        Inl u \<Rightarrow> Inl u
      | Inr (l, env1) \<Rightarrow>
          (case execute right env1 of
             Inl u \<Rightarrow> Inl u
           | Inr (r, env2) \<Rightarrow> Inr (double_add l r, env2)))"
| "execute (Sub left right) env =
     (case execute left env of
        Inl u \<Rightarrow> Inl u
      | Inr (l, env1) \<Rightarrow>
          (case execute right env1 of
             Inl u \<Rightarrow> Inl u
           | Inr (r, env2) \<Rightarrow> Inr (double_sub l r, env2)))"
| "execute (Mul left right) env =
     (case execute left env of
        Inl u \<Rightarrow> Inl u
      | Inr (l, env1) \<Rightarrow>
          (case execute right env1 of
             Inl u \<Rightarrow> Inl u
           | Inr (r, env2) \<Rightarrow> Inr (double_mul l r, env2)))"
| "execute (Div left right) env =
     (case execute left env of
        Inl u \<Rightarrow> Inl u
      | Inr (l, env1) \<Rightarrow>
          (case execute right env1 of
             Inl u \<Rightarrow> Inl u
           | Inr (r, env2) \<Rightarrow> Inr (double_div l r, env2)))"
| "execute (Rem left right) env =
     (case execute left env of
        Inl u \<Rightarrow> Inl u
      | Inr (l, env1) \<Rightarrow>
          (case execute right env1 of
             Inl u \<Rightarrow> Inl u
           | Inr (r, env2) \<Rightarrow>
               (case rem_double l r of
                  Inl u \<Rightarrow> Inl u
                | Inr v \<Rightarrow> Inr (v, env2))))"
| "execute (Sqrt argument) env =
     (case execute argument env of
        Inl u \<Rightarrow> Inl u
      | Inr (a, env1) \<Rightarrow> Inr (double_sqrt a, env1))"
| "execute (Load reg_index) env =
     (case execute_env_reg_load env reg_index of
        Inl u \<Rightarrow> Inl u
      | Inr v \<Rightarrow> Inr (v, env))"
| "execute (Store reg_index argument) env =
     (case execute argument env of
        Inl u \<Rightarrow> Inl u
      | Inr (v, env1) \<Rightarrow> execute_env_reg_store env1 reg_index v)"
| "execute (Ident name) env =
     (case execute_env_read env name of
        Inl u \<Rightarrow> Inl u
      | Inr v \<Rightarrow> Inr (v, env))"

text \<open>
  Each equation of \<open>execute\<close> is the \<^verbatim>\<open>execute_*\<close> function of that kind of node:
  \<^verbatim>\<open>e->data.binary.left->exec(e->data.binary.left, env)\<close> is the recursive call on the
  left child, and the environment it leaves is the one the next statement runs in.
\<close>

subsection \<open>The node pool\<close>

definition MAX_EXPR_NODES :: nat where
  "MAX_EXPR_NODES = 10000"

text \<open>
  A pointer to a chunk is \<open>Some i\<close> for \<^verbatim>\<open>freelist_memory + i\<close> and \<open>None\<close> for \<^verbatim>\<open>NULL\<close>.
  Of a chunk only its \<^verbatim>\<open>next\<close> member is kept: \<open>freelist_memory p ! i\<close> is
  \<^verbatim>\<open>freelist_memory[i].next\<close>.
\<close>

type_synonym pointer = "nat option"

record pool =
  freelist_memory :: "pointer list"
  freelist_head :: pointer

definition allocate :: "pool \<Rightarrow> (pointer \<times> pool) result" where
  "allocate p =
     (case freelist_head p of
        None \<Rightarrow> Inr (None, p)
      | Some c \<Rightarrow>
          if c < length (freelist_memory p)
          then Inr (Some c, p\<lparr>freelist_head := freelist_memory p ! c\<rparr>)
          else Inl Invalid_Pointer)"

definition deallocate :: "pointer \<Rightarrow> pool \<Rightarrow> pool result" where
  "deallocate e p =
     (case e of
        None \<Rightarrow> Inl Invalid_Pointer
      | Some c \<Rightarrow>
          if c < length (freelist_memory p)
          then Inr (p\<lparr>freelist_memory := (freelist_memory p)[c := freelist_head p],
                      freelist_head := Some c\<rparr>)
          else Inl Invalid_Pointer)"

text \<open>The loop of \<^verbatim>\<open>freelist_init\<close> from index \<open>i\<close> on, with \<open>n\<close> for \<^verbatim>\<open>MAX_EXPR_NODES\<close>.\<close>

function freelist_init_loop :: "nat \<Rightarrow> nat \<Rightarrow> pointer list \<Rightarrow> pointer list" where
  "freelist_init_loop n i mem =
     (if i < n
      then freelist_init_loop n (i + 1) (mem[i := (if i = n - 1 then None else Some (i + 1))])
      else mem)"
  by pat_completeness auto
termination
  by (relation "measure (\<lambda>(n, i, mem). n - i)") auto

declare freelist_init_loop.simps [simp del]

text \<open>\<^verbatim>\<open>freelist_init\<close> for a pool of \<open>n\<close> chunks; the benchmark's pool has
  \<^verbatim>\<open>MAX_EXPR_NODES\<close> of them.\<close>

definition freelist_init_sized :: "nat \<Rightarrow> pool \<Rightarrow> pool" where
  "freelist_init_sized n p =
     \<lparr> freelist_memory = freelist_init_loop n 0 (freelist_memory p),
       freelist_head = Some 0 \<rparr>"

definition freelist_init :: "pool \<Rightarrow> pool" where
  "freelist_init p = freelist_init_sized MAX_EXPR_NODES p"

text \<open>\<open>k\<close> calls of \<^verbatim>\<open>allocate\<close> in a row, as a caller makes them: the pointers
  returned, in order, and the pool left behind.\<close>

fun allocate_many :: "nat \<Rightarrow> pool \<Rightarrow> (pointer list \<times> pool) result" where
  "allocate_many 0 p = Inr ([], p)"
| "allocate_many (Suc k) p =
     (case allocate p of
        Inl u \<Rightarrow> Inl u
      | Inr (e, p1) \<Rightarrow>
          (case allocate_many k p1 of
             Inl u \<Rightarrow> Inl u
           | Inr (es, p2) \<Rightarrow> Inr (e # es, p2)))"

text \<open>\<open>free_slots mem h xs\<close>: following \<^verbatim>\<open>next\<close> from \<open>h\<close> visits exactly the chunks \<open>xs\<close>,
  in this order, and then reaches \<^verbatim>\<open>NULL\<close>.\<close>

fun free_slots :: "pointer list \<Rightarrow> pointer \<Rightarrow> nat list \<Rightarrow> bool" where
  "free_slots mem h [] \<longleftrightarrow> h = None"
| "free_slots mem h (x # xs) \<longleftrightarrow> h = Some x \<and> x < length mem \<and> free_slots mem (mem ! x) xs"

subsection \<open>Vocabulary of the properties\<close>

text \<open>The register indices that the \<^verbatim>\<open>Store\<close> nodes of a tree name.\<close>

fun store_targets :: "expr \<Rightarrow> 8 word set" where
  "store_targets (Constant v) = {}"
| "store_targets (Add l r) = store_targets l \<union> store_targets r"
| "store_targets (Sub l r) = store_targets l \<union> store_targets r"
| "store_targets (Mul l r) = store_targets l \<union> store_targets r"
| "store_targets (Div l r) = store_targets l \<union> store_targets r"
| "store_targets (Rem l r) = store_targets l \<union> store_targets r"
| "store_targets (Sqrt a) = store_targets a"
| "store_targets (Load i) = {}"
| "store_targets (Store i a) = insert i (store_targets a)"
| "store_targets (Ident c) = {}"

text \<open>A \<^verbatim>\<open>double\<close> that compares less than zero.\<close>

fun double_negative :: "double \<Rightarrow> bool" where
  "double_negative (Finite s m e) \<longleftrightarrow> s \<and> m \<noteq> 0"
| "double_negative (Infinity s) \<longleftrightarrow> s"
| "double_negative NaN \<longleftrightarrow> False"

text \<open>\<open>frame S env env'\<close>: from \<open>env\<close> to \<open>env'\<close> the inputs are the same, and a register
  differs only if its index is in \<open>S\<close>.\<close>

definition frame :: "8 word set \<Rightarrow> environment \<Rightarrow> environment \<Rightarrow> bool" where
  "frame S env env' \<longleftrightarrow>
     inputs env' = inputs env \<and> length (registers env') = length (registers env) \<and>
     (\<forall>i < length (registers env). registers env' ! i \<noteq> registers env ! i \<longrightarrow>
        (\<exists>r \<in> S. sint r = int i))"

text \<open>\<open>chained n mem\<close>: the \<open>n\<close> chunks are linked in ascending order, the last one to
  \<^verbatim>\<open>NULL\<close>.\<close>

definition chained :: "nat \<Rightarrow> pointer list \<Rightarrow> bool" where
  "chained n mem \<longleftrightarrow>
     length mem = n \<and> (\<forall>j < n. mem ! j = (if j = n - 1 then None else Some (j + 1)))"

section \<open>Auxiliary facts\<close>

subsection \<open>Integer remainder and conversions\<close>

lemma c_rem_sgn_mod: "b \<noteq> 0 \<Longrightarrow> c_rem a b = sgn a * (\<bar>a\<bar> mod \<bar>b\<bar>)"
proof -
  assume b: "b \<noteq> 0"
  have "\<bar>a\<bar> = (\<bar>a\<bar> div \<bar>b\<bar>) * \<bar>b\<bar> + \<bar>a\<bar> mod \<bar>b\<bar>" by simp
  then have "sgn a * \<bar>a\<bar> = sgn a * ((\<bar>a\<bar> div \<bar>b\<bar>) * \<bar>b\<bar>) + sgn a * (\<bar>a\<bar> mod \<bar>b\<bar>)"
    by (metis distrib_left)
  moreover have "sgn a * \<bar>a\<bar> = a" by (simp add: mult_sgn_abs)
  moreover have "sgn a * ((\<bar>a\<bar> div \<bar>b\<bar>) * \<bar>b\<bar>) = c_div a b * b"
  proof -
    have "\<bar>b\<bar> = sgn b * b" by (simp add: abs_sgn mult.commute)
    then show ?thesis by (simp add: c_div_def algebra_simps)
  qed
  ultimately show ?thesis by (simp add: c_rem_def)
qed

lemma c_rem_bounds: "b \<noteq> 0 \<Longrightarrow> \<bar>c_rem a b\<bar> < \<bar>b\<bar>"
  by (simp add: c_rem_sgn_mod abs_mult abs_sgn_eq)

lemma sint_word_of_int_64:
  "- (2 ^ 63) \<le> v \<Longrightarrow> v \<le> 2 ^ 63 - 1 \<Longrightarrow> sint (word_of_int v :: 64 word) = v"
proof -
  assume "- (2 ^ 63) \<le> v" "v \<le> 2 ^ 63 - 1"
  then have "signed_take_bit 63 v = v"
    by (intro signed_take_bit_int_eq_self) simp_all
  then show ?thesis by (simp add: sint_sbintrunc')
qed

lemma sint_64_range: "- (2 ^ 63) \<le> sint (x :: 64 word) \<and> sint x \<le> 2 ^ 63 - 1"
  using sint_ge [of x] sint_lt [of x] by simp

lemma double_to_int64_Inr:
  "double_to_int64 a = Inr x \<Longrightarrow>
     \<exists>s m e. a = Finite s m e \<and> sint x = (if s then - \<lfloor>magnitude m e\<rfloor> else \<lfloor>magnitude m e\<rfloor>)"
proof (cases a)
  case (Finite s m e)
  define v where "v = (if s then - \<lfloor>magnitude m e\<rfloor> else \<lfloor>magnitude m e\<rfloor>)"
  assume "double_to_int64 a = Inr x"
  with Finite have "- (2 ^ 63) \<le> v \<and> v \<le> 2 ^ 63 - 1 \<and> x = word_of_int v"
    unfolding v_def by (auto simp: Let_def split: if_splits)
  then have "sint x = v" by (simp add: sint_word_of_int_64)
  with Finite show ?thesis by (auto simp: v_def)
qed simp_all

lemma int64_rem_Inr:
  assumes "sint y \<noteq> 0" "\<not> (sint x = - (2 ^ 63) \<and> sint y = - 1)"
  shows "int64_rem x y = Inr z \<Longrightarrow> sint z = sgn (sint x) * (\<bar>sint x\<bar> mod \<bar>sint y\<bar>)"
    and "\<exists>z. int64_rem x y = Inr z"
proof -
  have b: "\<bar>c_rem (sint x) (sint y)\<bar> < \<bar>sint y\<bar>" using assms(1) by (rule c_rem_bounds)
  have "\<bar>sint y\<bar> \<le> 2 ^ 63" using sint_64_range [of y] by linarith
  with b have r: "- (2 ^ 63) \<le> c_rem (sint x) (sint y)" "c_rem (sint x) (sint y) \<le> 2 ^ 63 - 1"
    by linarith+
  show "\<exists>z. int64_rem x y = Inr z" using assms by (auto simp: int64_rem_def)
  assume "int64_rem x y = Inr z"
  then have "z = word_of_int (c_rem (sint x) (sint y))"
    using assms by (auto simp: int64_rem_def split: if_splits)
  then have "sint z = c_rem (sint x) (sint y)"
    using r by (simp only: sint_word_of_int_64)
  then show "sint z = sgn (sint x) * (\<bar>sint x\<bar> mod \<bar>sint y\<bar>)"
    using c_rem_sgn_mod [OF assms(1), of "sint x"] by simp
qed

subsection \<open>The model of \<^verbatim>\<open>double\<close> on examples\<close>

text \<open>The integer square root is the floor of the real one, and the doubles written
  \<open>double_of_int k\<close> below are the numbers \<open>k\<close>.\<close>

lemma isqrt_bounds: "0 \<le> n \<Longrightarrow> 0 \<le> isqrt n \<and> isqrt n * isqrt n \<le> n \<and> n < (isqrt n + 1) * (isqrt n + 1)"
proof (induction n rule: isqrt.induct)
  case (1 n)
  show ?case
  proof (cases "n \<le> 0")
    case True
    with "1.prems" have "n = 0" by simp
    then show ?thesis by (simp add: isqrt.simps)
  next
    case False
    define s where "s = isqrt (n div 4)"
    have ih: "0 \<le> s \<and> s * s \<le> n div 4 \<and> n div 4 < (s + 1) * (s + 1)"
      unfolding s_def using "1.IH" False "1.prems" by simp
    have lo: "(2 * s) * (2 * s) \<le> n"
    proof -
      have "4 * (s * s) \<le> 4 * (n div 4)" using ih by simp
      also have "\<dots> \<le> n" by simp
      finally show ?thesis by (simp add: algebra_simps)
    qed
    have hi: "n < (2 * s + 2) * (2 * s + 2)"
    proof -
      have "n div 4 + 1 \<le> (s + 1) * (s + 1)" using ih by simp
      then have "4 * (n div 4 + 1) \<le> 4 * ((s + 1) * (s + 1))" by simp
      moreover have "n < 4 * (n div 4 + 1)" by simp
      ultimately have "n < 4 * ((s + 1) * (s + 1))" by linarith
      then show ?thesis by (simp add: algebra_simps)
    qed
    have eq: "isqrt n = (if (2 * s + 1) * (2 * s + 1) \<le> n then 2 * s + 1 else 2 * s)"
      using False by (subst isqrt.simps) (simp add: s_def Let_def)
    show ?thesis
    proof (cases "(2 * s + 1) * (2 * s + 1) \<le> n")
      case True
      then have "isqrt n = 2 * s + 1" using eq by simp
      then show ?thesis using True hi ih by (simp add: algebra_simps)
    next
      case False
      then have "isqrt n = 2 * s" using eq by simp
      then show ?thesis using False lo ih by (simp add: algebra_simps)
    qed
  qed
qed

lemma double_of_int_examples:
  "double_of_int 1 = Finite False (2 ^ 52) (- 52)"
  "double_of_int (- 1) = Finite True (2 ^ 52) (- 52)"
  "double_of_int 2 = Finite False (2 ^ 52) (- 51)"
  "double_of_int 4 = Finite False (2 ^ 52) (- 50)"
  "double_of_int 7 = Finite False (7 * 2 ^ 50) (- 50)"
  "double_of_int (- 7) = Finite True (7 * 2 ^ 50) (- 50)"
  "double_of_int 16 = Finite False (2 ^ 52) (- 48)"
  by code_simp+

lemma signed_value_examples:
  "signed_value False (2 ^ 52) (- 52) = 1"
  "signed_value True (2 ^ 52) (- 52) = - 1"
  "signed_value False (2 ^ 52) (- 51) = 2"
  "signed_value False (2 ^ 52) (- 50) = 4"
  "signed_value False (7 * 2 ^ 50) (- 50) = 7"
  "signed_value True (7 * 2 ^ 50) (- 50) = - 7"
  "signed_value False (2 ^ 52) (- 48) = 16"
  by (simp_all add: signed_value_def magnitude_def pow2_def)

text \<open>Inexact results against the binary64 values of the same operations:
  \<^verbatim>\<open>sqrt(2.0)\<close> is \<^verbatim>\<open>0x3FF6A09E667F3BCD\<close>, \<^verbatim>\<open>1.0 / 3.0\<close> is \<^verbatim>\<open>0x3FD5555555555555\<close>,
  \<^verbatim>\<open>0.1 + 0.2\<close> is \<^verbatim>\<open>0x3FD3333333333334\<close>, and \<open>2^53 + 1\<close> and \<open>2^53 + 3\<close> are ties, which go
  to the even neighbour.\<close>

lemma double_rounding_examples:
  "double_sqrt (double_of_int 2) = Finite False 6369051672525773 (- 52)"
  "double_div (double_of_int 1) (double_of_int 3) = Finite False 6004799503160661 (- 54)"
  "double_add (double_div (double_of_int 1) (double_of_int 10))
              (double_div (double_of_int 2) (double_of_int 10)) =
     Finite False 5404319552844596 (- 54)"
  "double_of_int (2 ^ 53 + 1) = Finite False (2 ^ 52) 1"
  "double_of_int (2 ^ 53 + 3) = Finite False (2 ^ 52 + 2) 1"
  "double_div (double_of_int 1) zero = Infinity False"
  "double_div zero zero = NaN"
  by code_simp+

subsection \<open>What evaluation leaves unchanged\<close>

lemma fold_zero_fill:
  "k \<le> length xs \<Longrightarrow> fold (\<lambda>i ys. ys[i := z]) [0 ..< k] xs = replicate k z @ drop k xs"
proof (induction k)
  case 0
  then show ?case by simp
next
  case (Suc k)
  then have "fold (\<lambda>i ys. ys[i := z]) [0 ..< Suc k] xs = (replicate k z @ drop k xs)[k := z]"
    by simp
  also have "\<dots> = replicate k z @ (drop k xs)[0 := z]"
    by (simp add: list_update_append)
  also have "(drop k xs)[0 := z] = z # drop (Suc k) xs"
    using Suc.prems by (cases "drop k xs") (auto simp: drop_Suc [symmetric] dest: arg_cong [of _ _ tl] simp: tl_drop)
  finally show ?case by (simp add: replicate_app_Cons_same)
qed

lemma environment_init_fresh:
  "environment_ok env \<Longrightarrow>
     environment_init env =
       \<lparr>inputs = replicate 26 zero, registers = replicate 10 zero\<rparr>"
  by (simp add: environment_ok_def environment_init_def fold_zero_fill ENV_SIZE_def
      REGISTER_COUNT_def)

lemma reg_store_frame:
  "execute_env_reg_store env i v = Inr (w, env') \<Longrightarrow>
     w = v \<and> inputs env' = inputs env \<and> 0 \<le> sint i \<and> nat (sint i) < length (registers env) \<and>
     registers env' = (registers env)[nat (sint i) := v]"
  by (auto simp: execute_env_reg_store_def Let_def split: if_splits)

lemma frame_refl: "frame S env env"
  by (simp add: frame_def)

lemma frame_trans: "frame S env env1 \<Longrightarrow> frame T env1 env2 \<Longrightarrow> frame (S \<union> T) env env2"
  unfolding frame_def by (metis UnCI)

lemma frame_store:
  assumes "frame S env env1" "execute_env_reg_store env1 i w = Inr (v, env')"
  shows "frame (insert i S) env env'"
proof -
  note st = reg_store_frame [OF assms(2)]
  have "frame {i} env1 env'"
    unfolding frame_def using st by (auto simp: nth_list_update)
  from frame_trans [OF assms(1) this] show ?thesis by simp
qed

lemma execute_frame: "execute e env = Inr (v, env') \<Longrightarrow> frame (store_targets e) env env'"
proof (induction e arbitrary: env v env')
  case (Store i a)
  then obtain w env1 where a: "execute a env = Inr (w, env1)"
    and s: "execute_env_reg_store env1 i w = Inr (v, env')"
    by (auto split: sum.splits)
  from frame_store [OF Store.IH [OF a] s] show ?case by simp
next
  case (Add l r)
  then obtain a env1 b where "execute l env = Inr (a, env1)" "execute r env1 = Inr (b, env')"
    by (auto split: sum.splits)
  then show ?case using Add.IH frame_trans by fastforce
next
  case (Sub l r)
  then obtain a env1 b where "execute l env = Inr (a, env1)" "execute r env1 = Inr (b, env')"
    by (auto split: sum.splits)
  then show ?case using Sub.IH frame_trans by fastforce
next
  case (Mul l r)
  then obtain a env1 b where "execute l env = Inr (a, env1)" "execute r env1 = Inr (b, env')"
    by (auto split: sum.splits)
  then show ?case using Mul.IH frame_trans by fastforce
next
  case (Div l r)
  then obtain a env1 b where "execute l env = Inr (a, env1)" "execute r env1 = Inr (b, env')"
    by (auto split: sum.splits)
  then show ?case using Div.IH frame_trans by fastforce
next
  case (Rem l r)
  then obtain a env1 b where "execute l env = Inr (a, env1)" "execute r env1 = Inr (b, env')"
    by (auto split: sum.splits)
  then show ?case using Rem.IH frame_trans by fastforce
next
  case (Sqrt a)
  then show ?case by (auto split: sum.splits)
qed (auto split: sum.splits simp: frame_refl)

lemma execute_registers_length:
  "execute e env = Inr (v, env') \<Longrightarrow> length (registers env') = length (registers env)"
  using execute_frame [of e env v env'] by (simp add: frame_def)

subsection \<open>The freelist after \<^verbatim>\<open>freelist_init\<close>\<close>

lemma freelist_init_loop_length: "length (freelist_init_loop n i mem) = length mem"
  by (induction n i mem rule: freelist_init_loop.induct)
     (subst freelist_init_loop.simps, simp)

lemma freelist_init_loop_nth:
  "i \<le> n \<Longrightarrow> length mem = n \<Longrightarrow> j < n \<Longrightarrow>
     freelist_init_loop n i mem ! j =
       (if j < i then mem ! j else if j = n - 1 then None else Some (j + 1))"
proof (induction n i mem rule: freelist_init_loop.induct)
  case (1 n i mem)
  show ?case
  proof (cases "i < n")
    case True
    let ?mem = "mem[i := (if i = n - 1 then None else Some (i + 1))]"
    have "freelist_init_loop n i mem ! j = freelist_init_loop n (i + 1) ?mem ! j"
      using True by (subst freelist_init_loop.simps) simp
    also have "\<dots> = (if j < i + 1 then ?mem ! j else if j = n - 1 then None else Some (j + 1))"
      using "1.IH" [OF True] True "1.prems" by simp
    also have "\<dots> = (if j < i then mem ! j else if j = n - 1 then None else Some (j + 1))"
      using True "1.prems" by (auto simp: nth_list_update less_Suc_eq)
    finally show ?thesis .
  next
    case False
    then have "freelist_init_loop n i mem = mem"
      by (subst freelist_init_loop.simps) simp
    with False "1.prems" show ?thesis by simp
  qed
qed

lemma freelist_init_sized_chained:
  "length (freelist_memory p) = n \<Longrightarrow> chained n (freelist_memory (freelist_init_sized n p))"
  by (simp add: chained_def freelist_init_sized_def freelist_init_loop_length
      freelist_init_loop_nth)

lemma allocate_many_chained:
  "chained n (freelist_memory p) \<Longrightarrow> i \<le> n \<Longrightarrow> k \<le> n - i \<Longrightarrow>
   freelist_head p = (if i < n then Some i else None) \<Longrightarrow>
     allocate_many k p =
       Inr (map Some [i ..< i + k],
            p\<lparr>freelist_head := (if i + k < n then Some (i + k) else None)\<rparr>)"
proof (induction k arbitrary: i p)
  case 0
  then show ?case by simp
next
  case (Suc k)
  then have i: "i < n" by simp
  let ?p1 = "p\<lparr>freelist_head := (if i + 1 < n then Some (i + 1) else None)\<rparr>"
  have "freelist_memory p ! i = (if i + 1 < n then Some (i + 1) else None)"
    using Suc.prems(1) i by (auto simp: chained_def)
  then have a: "allocate p = Inr (Some i, ?p1)"
    using Suc.prems(1,4) i by (simp add: allocate_def chained_def)
  have "allocate_many k ?p1 =
      Inr (map Some [i + 1 ..< i + 1 + k],
           ?p1\<lparr>freelist_head := (if i + 1 + k < n then Some (i + 1 + k) else None)\<rparr>)"
    using Suc.prems i by (intro Suc.IH) simp_all
  then show ?case using a by (simp add: upt_rec [of i])
qed

lemma free_slots_update:
  "free_slots mem h xs \<Longrightarrow> c \<notin> set xs \<Longrightarrow> free_slots (mem[c := v]) h xs"
  by (induction xs arbitrary: h) auto

section \<open>Properties of the evaluator\<close>

text \<open>
  C1. \<^verbatim>\<open>execute_rem\<close> evaluates the left operand, then the right one in the environment
  the left one left behind, converts both values to \<^verbatim>\<open>int64_t\<close> by discarding the
  fraction, takes the remainder of the truncating division (its sign is the dividend's,
  its magnitude is \<open>|x| mod |y|\<close>) and converts it back to \<^verbatim>\<open>double\<close>. This is where C
  defines the two casts and \<^verbatim>\<open>%\<close>: both values are finite with an integral part in
  \<^verbatim>\<open>int64_t\<close>, the divisor is not zero, and the operands are not \<^verbatim>\<open>INT64_MIN\<close> and
  \<open>-1\<close>. In particular \<open>Rem(7, 2) = 1.0\<close> and \<open>Rem(-7, 2) = -1.0\<close>.
\<close>

theorem rem_truncating:
  assumes "execute l env = Inr (a, env1)" and "execute r env1 = Inr (b, env2)"
    and "double_to_int64 a = Inr x" and "double_to_int64 b = Inr y"
    and "sint y \<noteq> 0" and "\<not> (sint x = - (2 ^ 63) \<and> sint y = - 1)"
  shows "execute (Rem l r) env =
           Inr (double_of_int (sgn (sint x) * (\<bar>sint x\<bar> mod \<bar>sint y\<bar>)), env2) \<and>
         (\<exists>s m e. a = Finite s m e \<and>
            sint x = (if s then - \<lfloor>magnitude m e\<rfloor> else \<lfloor>magnitude m e\<rfloor>)) \<and>
         (\<exists>s m e. b = Finite s m e \<and>
            sint y = (if s then - \<lfloor>magnitude m e\<rfloor> else \<lfloor>magnitude m e\<rfloor>)) \<and>
         execute (Rem (Constant (double_of_int 7)) (Constant (double_of_int 2))) env =
           Inr (double_of_int 1, env) \<and>
         execute (Rem (Constant (double_of_int (- 7))) (Constant (double_of_int 2))) env =
           Inr (double_of_int (- 1), env)"
proof -
  obtain z where z: "int64_rem x y = Inr z"
    using int64_rem_Inr(2) [OF assms(5,6)] by blast
  have "sint z = sgn (sint x) * (\<bar>sint x\<bar> mod \<bar>sint y\<bar>)"
    using int64_rem_Inr(1) [OF assms(5,6) z] .
  then have "rem_double a b = Inr (double_of_int (sgn (sint x) * (\<bar>sint x\<bar> mod \<bar>sint y\<bar>)))"
    using assms(3,4) z by (simp add: rem_double_def int64_to_double_def)
  then have 1: "execute (Rem l r) env =
      Inr (double_of_int (sgn (sint x) * (\<bar>sint x\<bar> mod \<bar>sint y\<bar>)), env2)"
    using assms(1,2) by simp
  have 2: "rem_double (double_of_int 7) (double_of_int 2) = Inr (double_of_int 1)"
    by code_simp
  have 3: "rem_double (double_of_int (- 7)) (double_of_int 2) = Inr (double_of_int (- 1))"
    by code_simp
  show ?thesis
    using 1 double_to_int64_Inr [OF assms(3)] double_to_int64_Inr [OF assms(4)] 2 3
    by simp
qed

theorem rem_truncating_witness:
  "execute (Rem (Constant (double_of_int (- 17))) (Constant (double_of_int 5)))
     \<lparr>inputs = replicate 26 zero, registers = replicate 10 zero\<rparr> =
   Inr (double_of_int (- 2), \<lparr>inputs = replicate 26 zero, registers = replicate 10 zero\<rparr>)"
proof -
  let ?env = "\<lparr>inputs = replicate 26 zero, registers = replicate 10 zero\<rparr>"
  have l: "execute (Constant (double_of_int (- 17))) ?env = Inr (double_of_int (- 17), ?env)"
    by simp
  have r: "execute (Constant (double_of_int 5)) ?env = Inr (double_of_int 5, ?env)"
    by simp
  have x: "double_to_int64 (double_of_int (- 17)) = Inr (- 17)" by code_simp
  have y: "double_to_int64 (double_of_int 5) = Inr 5" by code_simp
  have y0: "sint (5 :: 64 word) \<noteq> 0" by simp
  have ov: "\<not> (sint (- 17 :: 64 word) = - (2 ^ 63) \<and> sint (5 :: 64 word) = - 1)" by simp
  have "sgn (sint (- 17 :: 64 word)) * (\<bar>sint (- 17 :: 64 word)\<bar> mod \<bar>sint (5 :: 64 word)\<bar>) = - 2"
    by simp
  with rem_truncating [OF l r x y y0 ov] show ?thesis by simp
qed

text \<open>
  C2. Evaluation walks the tree depth first and left to right, and keeps no results. For
  each of \<^verbatim>\<open>Add\<close>, \<^verbatim>\<open>Sub\<close>, \<^verbatim>\<open>Mul\<close>, \<^verbatim>\<open>Div\<close> and \<^verbatim>\<open>Rem\<close>: the right subtree runs in the
  environment that the complete evaluation of the left subtree has left, with the stores
  of the left subtree applied; the node's result is the operator on the two values, and the
  environment is the one after the right subtree. If a subtree runs into undefined
  behaviour, so does the node. A subtree that occurs twice is run twice: in \<open>Add l l\<close> the
  second run of \<open>l\<close> starts from what the first run stored.
\<close>

theorem evaluation_order:
  "(\<forall>a env1 b env2.
      execute l env = Inr (a, env1) \<longrightarrow> execute r env1 = Inr (b, env2) \<longrightarrow>
        execute (Add l r) env = Inr (double_add a b, env2) \<and>
        execute (Sub l r) env = Inr (double_sub a b, env2) \<and>
        execute (Mul l r) env = Inr (double_mul a b, env2) \<and>
        execute (Div l r) env = Inr (double_div a b, env2) \<and>
        execute (Rem l r) env =
          (case rem_double a b of Inl u \<Rightarrow> Inl u | Inr v \<Rightarrow> Inr (v, env2))) \<and>
   (\<forall>a env1 u.
      execute l env = Inr (a, env1) \<longrightarrow> execute r env1 = Inl u \<longrightarrow>
        execute (Add l r) env = Inl u \<and> execute (Sub l r) env = Inl u \<and>
        execute (Mul l r) env = Inl u \<and> execute (Div l r) env = Inl u \<and>
        execute (Rem l r) env = Inl u) \<and>
   (\<forall>u.
      execute l env = Inl u \<longrightarrow>
        execute (Add l r) env = Inl u \<and> execute (Sub l r) env = Inl u \<and>
        execute (Mul l r) env = Inl u \<and> execute (Div l r) env = Inl u \<and>
        execute (Rem l r) env = Inl u) \<and>
   (\<forall>a env1 b env2.
      execute l env = Inr (a, env1) \<longrightarrow> execute l env1 = Inr (b, env2) \<longrightarrow>
        execute (Add l l) env = Inr (double_add a b, env2))"
  by simp

theorem evaluation_order_witness:
  "execute (Sub (Store 1 (Constant (double_of_int 5))) (Load 1))
     \<lparr>inputs = replicate 26 zero, registers = replicate 10 zero\<rparr> =
   Inr (double_of_int 0,
        \<lparr>inputs = replicate 26 zero, registers = (replicate 10 zero)[1 := double_of_int 5]\<rparr>) \<and>
   execute (Add (Store 1 (Add (Load 1) (Constant (double_of_int 1))))
                (Store 1 (Add (Load 1) (Constant (double_of_int 1)))))
     \<lparr>inputs = replicate 26 zero, registers = replicate 10 zero\<rparr> =
   Inr (double_of_int 3,
        \<lparr>inputs = replicate 26 zero, registers = (replicate 10 zero)[1 := double_of_int 2]\<rparr>)"
proof -
  let ?env = "\<lparr>inputs = replicate 26 zero, registers = replicate 10 zero\<rparr>"
  let ?env5 = "\<lparr>inputs = replicate 26 zero, registers = (replicate 10 zero)[1 := double_of_int 5]\<rparr>"
  let ?env1 = "\<lparr>inputs = replicate 26 zero, registers = (replicate 10 zero)[1 := double_of_int 1]\<rparr>"
  let ?env2 = "\<lparr>inputs = replicate 26 zero, registers = (replicate 10 zero)[1 := double_of_int 2]\<rparr>"
  let ?inc = "Store 1 (Add (Load 1) (Constant (double_of_int 1)))"
  have sub: "double_sub (double_of_int 5) (double_of_int 5) = double_of_int 0" by code_simp
  have one: "double_of_int 1 = Finite False (2 ^ 52) (- 52)" by code_simp
  have "double_add zero (Finite False (2 ^ 52) (- 52)) = round_signed 1"
    by (simp add: zero_def signed_value_def magnitude_def pow2_def)
  moreover have "round_signed 1 = Finite False (2 ^ 52) (- 52)" by code_simp
  ultimately have a01: "double_add zero (double_of_int 1) = double_of_int 1"
    by (simp only: one)
  have a11: "double_add (double_of_int 1) (double_of_int 1) = double_of_int 2" by code_simp
  have a12: "double_add (double_of_int 1) (double_of_int 2) = double_of_int 3" by code_simp
  have l: "execute (Store 1 (Constant (double_of_int 5))) ?env = Inr (double_of_int 5, ?env5)"
    by (simp add: execute_env_reg_store_def)
  have r: "execute (Load 1) ?env5 = Inr (double_of_int 5, ?env5)"
    by (simp add: execute_env_reg_load_def)
  have i1: "execute ?inc ?env = Inr (double_of_int 1, ?env1)"
    by (simp add: execute_env_reg_store_def execute_env_reg_load_def a01)
  have i2: "execute ?inc ?env1 = Inr (double_of_int 2, ?env2)"
    by (simp add: execute_env_reg_store_def execute_env_reg_load_def a11)
  have "execute (Sub (Store 1 (Constant (double_of_int 5))) (Load 1)) ?env =
      Inr (double_sub (double_of_int 5) (double_of_int 5), ?env5)"
    using evaluation_order [of "Store 1 (Constant (double_of_int 5))" ?env "Load 1"] l r
    by blast
  moreover have "execute (Add ?inc ?inc) ?env =
      Inr (double_add (double_of_int 1) (double_of_int 2), ?env2)"
    using evaluation_order [of ?inc ?env ?inc] i1 i2 by blast
  ultimately show ?thesis by (simp only: sub a12)
qed

text \<open>
  C3. For a register index \<open>r\<close> from 0 to 9 and an environment whose arrays have their
  declared sizes: if \<open>a\<close> evaluates to \<open>v\<close>, then \<open>Store r a\<close> returns \<open>v\<close> and leaves the
  environment of \<open>a\<close> with register \<open>r\<close> set to \<open>v\<close>, and \<open>Load r\<close> evaluated next, in that
  environment, returns \<open>v\<close> and changes nothing.
\<close>

theorem store_then_load:
  assumes "0 \<le> sint r" and "sint r < 10" and "environment_ok env"
    and "execute a env = Inr (v, env1)"
  shows "execute (Store r a) env =
           Inr (v, env1\<lparr>registers := (registers env1)[nat (sint r) := v]\<rparr>) \<and>
         execute (Load r) (env1\<lparr>registers := (registers env1)[nat (sint r) := v]\<rparr>) =
           Inr (v, env1\<lparr>registers := (registers env1)[nat (sint r) := v]\<rparr>)"
proof -
  have "length (registers env1) = 10"
    using execute_registers_length [OF assms(4)] assms(3)
    by (simp add: environment_ok_def REGISTER_COUNT_def)
  then have len: "nat (sint r) < length (registers env1)"
    using assms(1,2) by simp
  have "execute_env_reg_store env1 r v =
      Inr (v, env1\<lparr>registers := (registers env1)[nat (sint r) := v]\<rparr>)"
    using assms(1) len by (simp add: execute_env_reg_store_def)
  moreover have "execute_env_reg_load (env1\<lparr>registers := (registers env1)[nat (sint r) := v]\<rparr>) r =
      Inr v"
    using assms(1) len by (simp add: execute_env_reg_load_def)
  ultimately show ?thesis using assms(4) by simp
qed

theorem store_then_load_witness:
  "execute (Store 5 (Constant (double_of_int 1)))
     \<lparr>inputs = replicate 26 zero, registers = replicate 10 zero\<rparr> =
   Inr (double_of_int 1,
        \<lparr>inputs = replicate 26 zero,
         registers = (replicate 10 zero)[5 := double_of_int 1]\<rparr>) \<and>
   execute (Load 5)
     \<lparr>inputs = replicate 26 zero,
      registers = (replicate 10 zero)[5 := double_of_int 1]\<rparr> =
   Inr (double_of_int 1,
        \<lparr>inputs = replicate 26 zero,
         registers = (replicate 10 zero)[5 := double_of_int 1]\<rparr>)"
proof -
  let ?env = "\<lparr>inputs = replicate 26 zero, registers = replicate 10 zero\<rparr>"
  let ?one = "double_of_int 1"
  have r: "0 \<le> sint (5 :: 8 word)" "sint (5 :: 8 word) < 10" by simp_all
  have ok: "environment_ok ?env"
    by (simp add: environment_ok_def ENV_SIZE_def REGISTER_COUNT_def)
  have a: "execute (Constant ?one) ?env = Inr (?one, ?env)" by simp
  from store_then_load [OF r ok a] show ?thesis by simp
qed

text \<open>
  C4, as the code has it. When the right operand of \<^verbatim>\<open>Rem\<close> evaluates to a value whose
  truncation is the integer zero, \<^verbatim>\<open>execute_rem\<close> computes \<^verbatim>\<open>% 0\<close>: there is no guard, the
  behaviour is undefined in C, and no failure is reported (the function returns a
  \<^verbatim>\<open>double\<close> and has no other way to tell its caller). If the left value has no
  truncation in \<^verbatim>\<open>int64_t\<close> the undefined behaviour is already that of its cast.
\<close>

theorem rem_by_zero_undefined:
  assumes "execute l env = Inr (a, env1)" and "execute r env1 = Inr (b, env2)"
    and "double_to_int64 b = Inr 0"
  shows "execute (Rem l r) env =
           Inl (case double_to_int64 a of Inl u \<Rightarrow> u | Inr x \<Rightarrow> Rem_By_Zero)"
  using assms by (simp add: rem_double_def int64_rem_def split: sum.splits)

theorem rem_by_zero_undefined_witness:
  "execute (Rem (Constant (double_of_int 7)) (Sub (Constant (double_of_int 2)) (Constant (double_of_int 2))))
     \<lparr>inputs = replicate 26 zero, registers = replicate 10 zero\<rparr> = Inl Rem_By_Zero"
proof -
  let ?env = "\<lparr>inputs = replicate 26 zero, registers = replicate 10 zero\<rparr>"
  have l: "execute (Constant (double_of_int 7)) ?env = Inr (double_of_int 7, ?env)" by simp
  have sub: "double_sub (double_of_int 2) (double_of_int 2) = Finite False 0 (- 1074)"
    by code_simp
  have r: "execute (Sub (Constant (double_of_int 2)) (Constant (double_of_int 2))) ?env =
      Inr (Finite False 0 (- 1074), ?env)"
    by (simp add: sub)
  have b: "double_to_int64 (Finite False 0 (- 1074)) = Inr 0"
    by (simp add: magnitude_def)
  have a: "double_to_int64 (double_of_int 7) = Inr 7" by code_simp
  from rem_by_zero_undefined [OF l r b] show ?thesis by (simp add: a)
qed

text \<open>
  C4, as stated, asks for a reported failure that is not undefined behaviour. \<open>Rem(7, 0)\<close> in
  the environment that \<^verbatim>\<open>environment_init\<close> leaves is the remainder by zero itself.
\<close>

theorem rem_by_zero_counterexample:
  "execute (Rem (Constant (double_of_int 7)) (Constant zero))
     \<lparr>inputs = replicate 26 zero, registers = replicate 10 zero\<rparr> = Inl Rem_By_Zero"
proof -
  have a: "double_to_int64 (double_of_int 7) = Inr 7" by code_simp
  show ?thesis by (simp add: rem_double_def a zero_def magnitude_def int64_rem_def)
qed

text \<open>
  C5. In a pool of \<open>N > 0\<close> chunks, after \<^verbatim>\<open>freelist_init\<close>: any \<open>k \<le> N\<close> calls of
  \<^verbatim>\<open>allocate\<close> in a row return \<open>k\<close> different chunks of the pool, none of them
  \<^verbatim>\<open>NULL\<close>, and the array keeps its \<open>N\<close> chunks. As long as \<open>k < N\<close> the next call takes the
  chunk at the head of the freelist, which no earlier call has returned, and moves the head
  to that chunk's \<^verbatim>\<open>next\<close>; after \<open>N\<close> calls the next call returns \<^verbatim>\<open>NULL\<close> and
  leaves the pool as it is.
\<close>

theorem pool_exhaustion:
  assumes "0 < N" and "length (freelist_memory p) = N"
  shows "\<exists>es q. allocate_many N (freelist_init_sized N p) = Inr (es, q) \<and>
           length es = N \<and> distinct es \<and> (\<forall>e \<in> set es. \<exists>c < N. e = Some c) \<and>
           allocate q = Inr (None, q) \<and> length (freelist_memory q) = N"
proof -
  let ?q0 = "freelist_init_sized N p"
  have ch: "chained N (freelist_memory ?q0)"
    using assms(2) by (rule freelist_init_sized_chained)
  have hd: "freelist_head ?q0 = (if 0 < N then Some 0 else None)"
    using assms(1) by (simp add: freelist_init_sized_def)
  have "allocate_many N ?q0 =
      Inr (map Some [0 ..< 0 + N], ?q0\<lparr>freelist_head := (if 0 + N < N then Some (0 + N) else None)\<rparr>)"
    using ch _ _ hd by (rule allocate_many_chained) simp_all
  then have m: "allocate_many N ?q0 = Inr (map Some [0 ..< N], ?q0\<lparr>freelist_head := None\<rparr>)"
    by simp
  have "distinct (map Some [0 ..< N])" by (simp add: distinct_map)
  moreover have "allocate (?q0\<lparr>freelist_head := None\<rparr>) = Inr (None, ?q0\<lparr>freelist_head := None\<rparr>)"
    by (simp add: allocate_def)
  moreover have "length (freelist_memory (?q0\<lparr>freelist_head := None\<rparr>)) = N"
    using ch by (simp add: chained_def)
  ultimately show ?thesis using m by auto
qed

theorem pool_exhaustion_witness:
  "allocate_many 3 (freelist_init_sized 3 \<lparr>freelist_memory = [None, None, None], freelist_head = None\<rparr>) =
     Inr ([Some 0, Some 1, Some 2], \<lparr>freelist_memory = [Some 1, Some 2, None], freelist_head = None\<rparr>) \<and>
   allocate \<lparr>freelist_memory = [Some 1, Some 2, None], freelist_head = None\<rparr> =
     Inr (None, \<lparr>freelist_memory = [Some 1, Some 2, None], freelist_head = None\<rparr>)"
proof -
  let ?p = "\<lparr>freelist_memory = [None, None, None], freelist_head = None\<rparr>"
  have i: "freelist_init_sized 3 ?p = \<lparr>freelist_memory = [Some 1, Some 2, None], freelist_head = Some 0\<rparr>"
    by (simp add: freelist_init_sized_def freelist_init_loop.simps)
  have m: "allocate_many 3 \<lparr>freelist_memory = [Some 1, Some 2, None], freelist_head = Some 0\<rparr> =
      Inr ([Some 0, Some 1, Some 2], \<lparr>freelist_memory = [Some 1, Some 2, None], freelist_head = None\<rparr>)"
    by (simp add: numeral_3_eq_3 allocate_def)
  from pool_exhaustion [of 3 ?p] i m show ?thesis
    by (simp add: allocate_def)
qed

text \<open>
  C6. For every pool and every chunk \<open>c\<close> of it: \<^verbatim>\<open>deallocate\<close> puts \<open>c\<close> at the head of the
  freelist, and the call of \<^verbatim>\<open>allocate\<close> that follows returns exactly \<open>c\<close> and puts the head
  back where it was; of the memory only the \<^verbatim>\<open>next\<close> member of \<open>c\<close> has changed. When \<open>c\<close>
  was a node in use, that is, not one of the free chunks \<open>xs\<close>, the freelist is \<open>c # xs\<close> in
  between and \<open>xs\<close> again afterwards.
\<close>

theorem deallocate_then_allocate:
  assumes "c < length (freelist_memory p)"
  shows "\<exists>p1 p2. deallocate (Some c) p = Inr p1 \<and> allocate p1 = Inr (Some c, p2) \<and>
           freelist_head p1 = Some c \<and>
           freelist_head p2 = freelist_head p \<and>
           freelist_memory p2 = (freelist_memory p)[c := freelist_head p] \<and>
           (\<forall>xs. free_slots (freelist_memory p) (freelist_head p) xs \<longrightarrow> c \<notin> set xs \<longrightarrow>
              free_slots (freelist_memory p1) (freelist_head p1) (c # xs) \<and>
              free_slots (freelist_memory p2) (freelist_head p2) xs)"
proof -
  let ?p1 = "p\<lparr>freelist_memory := (freelist_memory p)[c := freelist_head p], freelist_head := Some c\<rparr>"
  let ?p2 = "?p1\<lparr>freelist_head := freelist_head p\<rparr>"
  have d: "deallocate (Some c) p = Inr ?p1"
    using assms by (simp add: deallocate_def)
  have a: "allocate ?p1 = Inr (Some c, ?p2)"
    using assms by (simp add: allocate_def)
  have "free_slots (freelist_memory ?p1) (freelist_head ?p1) (c # xs) \<and>
        free_slots (freelist_memory ?p2) (freelist_head ?p2) xs"
    if "free_slots (freelist_memory p) (freelist_head p) xs" "c \<notin> set xs" for xs
    using that assms by (simp add: free_slots_update)
  then show ?thesis using d a by auto
qed

theorem deallocate_then_allocate_witness:
  "deallocate (Some 0) \<lparr>freelist_memory = [None, Some 2, None], freelist_head = Some 1\<rparr> =
     Inr \<lparr>freelist_memory = [Some 1, Some 2, None], freelist_head = Some 0\<rparr> \<and>
   allocate \<lparr>freelist_memory = [Some 1, Some 2, None], freelist_head = Some 0\<rparr> =
     Inr (Some 0, \<lparr>freelist_memory = [Some 1, Some 2, None], freelist_head = Some 1\<rparr>) \<and>
   free_slots [None, Some 2, None] (Some 1) [1, 2] \<and>
   free_slots [Some 1, Some 2, None] (Some 0) [0, 1, 2] \<and>
   free_slots [Some 1, Some 2, None] (Some 1) [1, 2]"
proof -
  let ?p = "\<lparr>freelist_memory = [None, Some 2, None], freelist_head = Some 1\<rparr>"
  have c: "0 < length (freelist_memory ?p)" by simp
  have f: "free_slots (freelist_memory ?p) (freelist_head ?p) [1, 2]" by simp
  from deallocate_then_allocate [OF c] f show ?thesis
    by (auto simp: deallocate_def allocate_def)
qed

text \<open>
  C7. An evaluation that returns leaves the \<^verbatim>\<open>inputs\<close> array as it was and the
  \<^verbatim>\<open>registers\<close> array at its length; a register whose value differs afterwards is the
  target of a \<^verbatim>\<open>Store\<close> node of the tree (every node of a tree is evaluated when the
  evaluation returns).
\<close>

theorem evaluation_frame:
  assumes "execute e env = Inr (v, env')"
  shows "inputs env' = inputs env \<and>
         length (registers env') = length (registers env) \<and>
         (\<forall>i < length (registers env). registers env' ! i \<noteq> registers env ! i \<longrightarrow>
            (\<exists>r \<in> store_targets e. sint r = int i))"
  using execute_frame [OF assms] by (simp add: frame_def)

theorem evaluation_frame_witness:
  "execute (Add (Store 5 (Constant (double_of_int 1))) (Load 5))
     \<lparr>inputs = replicate 26 zero, registers = replicate 10 zero\<rparr> =
   Inr (double_of_int 2,
        \<lparr>inputs = replicate 26 zero, registers = (replicate 10 zero)[5 := double_of_int 1]\<rparr>) \<and>
   store_targets (Add (Store 5 (Constant (double_of_int 1))) (Load 5)) = {5} \<and>
   (replicate 10 zero)[5 := double_of_int 1] ! 3 = replicate 10 zero ! 3"
proof -
  let ?env = "\<lparr>inputs = replicate 26 zero, registers = replicate 10 zero\<rparr>"
  let ?e = "Add (Store 5 (Constant (double_of_int 1))) (Load 5)"
  have add: "double_add (double_of_int 1) (double_of_int 1) = double_of_int 2" by code_simp
  have ex: "execute ?e ?env =
      Inr (double_of_int 2,
           \<lparr>inputs = replicate 26 zero, registers = (replicate 10 zero)[5 := double_of_int 1]\<rparr>)"
    by (simp add: execute_env_reg_store_def execute_env_reg_load_def add)
  have st: "store_targets ?e = {5}" by simp
  have "(replicate 10 zero)[5 := double_of_int 1] ! 3 \<noteq> replicate 10 zero ! 3 \<longrightarrow>
      (\<exists>r \<in> store_targets ?e. sint r = int 3)"
    using evaluation_frame [OF ex] by simp
  then have "(replicate 10 zero)[5 := double_of_int 1] ! 3 = replicate 10 zero ! 3"
    by (simp only: st) simp
  with ex st show ?thesis by simp
qed

text \<open>
  C8. \<^verbatim>\<open>execute_sqrt\<close> evaluates its argument and returns \<^verbatim>\<open>sqrt\<close> of the value,
  whatever the value is: it adds no check and no undefined behaviour of its own. For a value
  below zero the result is not-a-number. \<open>Sqrt(-1)\<close> is not-a-number and \<open>Sqrt(16) = 4.0\<close>.
\<close>

theorem sqrt_unguarded:
  assumes "execute a env = Inr (v, env1)"
  shows "execute (Sqrt a) env = Inr (double_sqrt v, env1) \<and>
         (double_negative v \<longrightarrow> double_sqrt v = NaN) \<and>
         execute (Sqrt (Constant (double_of_int (- 1)))) env = Inr (NaN, env) \<and>
         execute (Sqrt (Constant (double_of_int 16))) env = Inr (double_of_int 4, env)"
proof -
  have neg: "double_negative v \<longrightarrow> double_sqrt v = NaN"
    by (cases v) auto
  have m1: "double_sqrt (double_of_int (- 1)) = NaN" by code_simp
  have s16: "double_sqrt (double_of_int 16) = double_of_int 4" by code_simp
  show ?thesis using assms neg by (simp add: m1 s16)
qed

theorem sqrt_unguarded_witness:
  "execute (Sqrt (Sub (Constant (double_of_int 2)) (Constant (double_of_int 11))))
     \<lparr>inputs = replicate 26 zero, registers = replicate 10 zero\<rparr> =
   Inr (NaN, \<lparr>inputs = replicate 26 zero, registers = replicate 10 zero\<rparr>) \<and>
   double_negative (double_of_int (- 9))"
proof -
  let ?env = "\<lparr>inputs = replicate 26 zero, registers = replicate 10 zero\<rparr>"
  have sub: "double_sub (double_of_int 2) (double_of_int 11) = double_of_int (- 9)"
    by code_simp
  have a: "execute (Sub (Constant (double_of_int 2)) (Constant (double_of_int 11))) ?env =
      Inr (double_of_int (- 9), ?env)"
    by (simp add: sub)
  have n: "double_negative (double_of_int (- 9))" by code_simp
  from sqrt_unguarded [OF a] n show ?thesis by simp
qed

text \<open>
  C9, as the code has it. In an environment whose arrays have their declared sizes,
  \<open>Ident c\<close> for a letter \<open>c\<close> from \<open>a\<close> to \<open>z\<close> returns the input at index \<open>c - 'a'\<close>, which is
  below 26, and leaves the environment as it is. For every other \<open>c\<close> the subscript is
  outside the array and \<^verbatim>\<open>execute_env_read\<close> uses it unchecked: the behaviour is undefined
  in C and no failure is reported.
\<close>

theorem ident_read:
  assumes "environment_ok env"
  shows "(of_char (CHR ''a'') \<le> (of_char c :: nat) \<and> (of_char c :: nat) \<le> of_char (CHR ''z'') \<longrightarrow>
            of_char c - of_char (CHR ''a'') < (26 :: nat) \<and>
            execute (Ident c) env =
              Inr (inputs env ! (of_char c - of_char (CHR ''a'')), env)) \<and>
         (\<not> (of_char (CHR ''a'') \<le> (of_char c :: nat) \<and> (of_char c :: nat) \<le> of_char (CHR ''z'')) \<longrightarrow>
            execute (Ident c) env = Inl Index_Out_Of_Bounds)"
proof -
  have len: "length (inputs env) = 26"
    using assms by (simp add: environment_ok_def ENV_SIZE_def)
  have i: "(of_char c :: int) = int (of_char c)" by (simp add: of_char_def)
  show ?thesis
    using len by (auto simp: execute_env_read_def Let_def i nat_diff_distrib')
qed

theorem ident_read_witness:
  "execute (Ident (CHR ''x'')) \<lparr>inputs = (replicate 26 zero)[23 := double_of_int 5], registers = replicate 10 zero\<rparr> =
     Inr (double_of_int 5, \<lparr>inputs = (replicate 26 zero)[23 := double_of_int 5], registers = replicate 10 zero\<rparr>) \<and>
   execute (Ident (CHR ''{'')) \<lparr>inputs = (replicate 26 zero)[23 := double_of_int 5], registers = replicate 10 zero\<rparr> =
     Inl Index_Out_Of_Bounds"
proof -
  let ?env = "\<lparr>inputs = (replicate 26 zero)[23 := double_of_int 5], registers = replicate 10 zero\<rparr>"
  have ok: "environment_ok ?env"
    by (simp add: environment_ok_def ENV_SIZE_def REGISTER_COUNT_def)
  from ident_read [OF ok, of "CHR ''x''"] ident_read [OF ok, of "CHR ''{''"]
  show ?thesis by simp
qed

text \<open>
  C9, as stated, asks for a reported failure outside \<open>a\<close> to \<open>z\<close>. \<open>Ident 'A'\<close> subscripts
  \<^verbatim>\<open>inputs\<close> with \<open>-32\<close>.
\<close>

theorem ident_out_of_range_counterexample:
  "execute (Ident (CHR ''A'')) \<lparr>inputs = replicate 26 zero, registers = replicate 10 zero\<rparr> =
     Inl Index_Out_Of_Bounds"
  by (simp add: execute_env_read_def)

text \<open>
  C10. After \<^verbatim>\<open>freelist_init\<close> on the pool of \<^verbatim>\<open>MAX_EXPR_NODES\<close> = 10000 chunks, the head
  is chunk 0, chunk \<open>i\<close> links to chunk \<open>i + 1\<close> for \<open>i < 9999\<close>, and chunk 9999 links to
  \<^verbatim>\<open>NULL\<close>; so \<open>k \<le> 10000\<close> calls of \<^verbatim>\<open>allocate\<close> in a row return the chunks
  \<open>0, 1, \<dots>, k - 1\<close> in this order.
\<close>

theorem freelist_init_order:
  assumes "length (freelist_memory p) = MAX_EXPR_NODES"
  shows "freelist_head (freelist_init p) = Some 0 \<and>
         (\<forall>i < 9999. freelist_memory (freelist_init p) ! i = Some (i + 1)) \<and>
         freelist_memory (freelist_init p) ! 9999 = None \<and>
         (\<forall>k \<le> 10000. \<exists>q. allocate_many k (freelist_init p) = Inr (map Some [0 ..< k], q))"
proof -
  let ?init = "freelist_init p"
  have ch: "chained 10000 (freelist_memory ?init)"
    using freelist_init_sized_chained [OF assms]
    by (simp add: freelist_init_def MAX_EXPR_NODES_def)
  have hd: "freelist_head ?init = Some 0"
    by (simp add: freelist_init_def freelist_init_sized_def)
  have "\<exists>q. allocate_many k ?init = Inr (map Some [0 ..< k], q)" if "k \<le> 10000" for k
  proof -
    have "allocate_many k ?init =
        Inr (map Some [0 ..< 0 + k],
             ?init\<lparr>freelist_head := (if 0 + k < 10000 then Some (0 + k) else None)\<rparr>)"
      using ch _ _ _ by (rule allocate_many_chained) (use that hd in simp_all)
    then show ?thesis by simp
  qed
  moreover have "\<forall>i < 9999. freelist_memory ?init ! i = Some (i + 1)"
    using ch by (simp add: chained_def)
  moreover have "freelist_memory ?init ! 9999 = None"
    using ch by (simp add: chained_def)
  ultimately show ?thesis using hd by simp
qed

theorem freelist_init_order_witness:
  "length (replicate 10000 (None :: pointer)) = MAX_EXPR_NODES \<and>
   allocate_many 3 (freelist_init \<lparr>freelist_memory = replicate 10000 None, freelist_head = None\<rparr>) =
     Inr ([Some 0, Some 1, Some 2],
          (freelist_init \<lparr>freelist_memory = replicate 10000 None, freelist_head = None\<rparr>)
            \<lparr>freelist_head := Some 3\<rparr>)"
proof -
  let ?p = "\<lparr>freelist_memory = replicate 10000 None, freelist_head = None\<rparr>"
  have len: "length (freelist_memory ?p) = MAX_EXPR_NODES"
    by (simp add: MAX_EXPR_NODES_def)
  note t = freelist_init_order [OF len]
  have h: "freelist_head (freelist_init ?p) = Some 0" using t by simp
  have n0: "freelist_memory (freelist_init ?p) ! 0 = Some 1" using t by simp
  have n1: "freelist_memory (freelist_init ?p) ! 1 = Some 2" using t by simp
  have n2: "freelist_memory (freelist_init ?p) ! 2 = Some 3" using t by simp
  have l: "length (freelist_memory (freelist_init ?p)) = 10000"
    by (simp add: freelist_init_def freelist_init_sized_def freelist_init_loop_length)
  have "allocate_many 3 (freelist_init ?p) =
     Inr ([Some 0, Some 1, Some 2], (freelist_init ?p)\<lparr>freelist_head := Some 3\<rparr>)"
    using h n0 n1 n2 l by (simp add: numeral_3_eq_3 allocate_def)
  then show ?thesis by (simp add: MAX_EXPR_NODES_def)
qed

end
